theory Spec2Isabelle
  imports Main
begin

section \<open>Python values and exceptions\<close>

text \<open>
  The module \<^verbatim>\<open>pynwm/nwm.py\<close> is embedded function by function. Every exception the
  Python code can raise on the modelled inputs is a value of \<open>error\<close>; a function that may
  raise returns \<open>error + 'a\<close> with \<open>Inl\<close> for the exception.

  \<^item> \<open>IndexError\<close>, \<open>KeyError\<close>, \<open>TypeError\<close>, \<open>UnboundLocalError\<close>, \<open>StopIteration\<close>,
    \<open>AttributeError\<close>, \<open>IOError\<close>: the Python built-ins of the same name;
  \<open>KeyError\<close> carries the missing key.
  \<^item> \<open>EmptyResultSet\<close>: the \<^verbatim>\<open>ValueError('Empty result set. Try adjusting input parameters')\<close>
    of \<^verbatim>\<open>_unpack_series\<close>.
  \<^item> \<open>InvalidLiteral\<close>: the \<^verbatim>\<open>ValueError\<close> of \<^verbatim>\<open>int(s)\<close> on a string that is no integer
    literal.
  \<^item> \<open>ShapeMismatch\<close>: the \<^verbatim>\<open>ValueError\<close> of a numpy row assignment whose right-hand side
    cannot be broadcast.
  \<^item> \<open>NoStationId\<close>: the \<^verbatim>\<open>Exception\<close> of \<^verbatim>\<open>build_streamflow_cube\<close> for a file without
    \<^verbatim>\<open>station_id\<close>; it carries the file name.
  \<^item> \<open>NoFilesToCombine\<close>: the \<^verbatim>\<open>Exception('No files to combine')\<close> of \<^verbatim>\<open>combine_files\<close>.
\<close>

datatype error =
    IndexError
  | KeyError string
  | TypeError
  | UnboundLocalError
  | StopIteration
  | AttributeError
  | IOError
  | EmptyResultSet
  | InvalidLiteral
  | ShapeMismatch
  | NoStationId string
  | NoFilesToCombine

section \<open>The identifier index resolver\<close>

text \<open>
  \<^verbatim>\<open>nc_comids.argsort()\<close>: the indices of the array in the order that sorts it. For an array
  without duplicates this permutation is unique; where values repeat, numpy's default sort
  may order equal keys differently from the stable sort used here.
\<close>

definition argsort :: "'a::linorder list \<Rightarrow> nat list" where
  "argsort xs = sort_key (\<lambda>i. xs ! i) [0..<length xs]"

text \<open>
  \<^verbatim>\<open>np.searchsorted(a, v)\<close> with the default \<^verbatim>\<open>side='left'\<close>: a binary search for the
  leftmost insertion point of \<open>v\<close> between \<open>lo\<close> and \<open>hi\<close>.
\<close>

function bisect_left :: "'a::linorder list \<Rightarrow> 'a \<Rightarrow> nat \<Rightarrow> nat \<Rightarrow> nat" where
  "bisect_left a v lo hi =
     (if lo < hi then
        (let mid = lo + (hi - lo) div 2
         in if a ! mid < v then bisect_left a v (mid + 1) hi
            else bisect_left a v lo mid)
      else lo)"
  by pat_completeness auto
termination
  by (relation "measure (\<lambda>(a, v, lo, hi). hi - lo)") auto

declare bisect_left.simps [simp del]

definition searchsorted :: "'a::linorder list \<Rightarrow> 'a list \<Rightarrow> nat list" where
  "searchsorted a vs = map (\<lambda>v. bisect_left a v 0 (length a)) vs"

text \<open>
  \<^verbatim>\<open>xs[idx]\<close> for an array \<open>xs\<close> and an array \<open>idx\<close> of non-negative positions: numpy raises
  \<^verbatim>\<open>IndexError\<close> when a position is not below the length of \<open>xs\<close>.
\<close>

definition take_idx :: "'a list \<Rightarrow> nat list \<Rightarrow> error + 'a list" where
  "take_idx xs idx =
     (if \<forall>i \<in> set idx. i < length xs then Inr (map (\<lambda>i. xs ! i) idx)
      else Inl IndexError)"

text \<open>
  \<^verbatim>\<open>_get_comid_indices(find_comids, nc_comids)\<close>. The test on the type of \<^verbatim>\<open>find_comids\<close>
  compares a type with a string, so the conversion to an array always happens; it does not
  change the elements.
\<close>

definition get_comid_indices :: "'a::linorder list \<Rightarrow> 'a list \<Rightarrow> error + nat list" where
  "get_comid_indices find_comids nc_comids =
     (let sorted_index = argsort nc_comids
      in case take_idx nc_comids sorted_index of
           Inl e \<Rightarrow> Inl e
         | Inr sorted_nc_comids \<Rightarrow>
             (let found_index_sorted = searchsorted sorted_nc_comids find_comids
              in take_idx sorted_index found_index_sorted))"

section \<open>The time series unpacker\<close>

text \<open>
  A result record of the service is the JSON list \<^verbatim>\<open>[times, values_1, ..., values_k, label]\<close>:
  \<^verbatim>\<open>sim_result[0]\<close> is a list of epoch seconds of which the code reads the first,
  \<^verbatim>\<open>sim_result[1:-1]\<close> are the value lists and \<^verbatim>\<open>sim_result[-1]\<close> is the label. Instants
  (\<^verbatim>\<open>datetime\<close> in UTC) are whole seconds since the epoch, \<^verbatim>\<open>timedelta(hours=h)\<close> is
  \<open>hours h\<close> seconds. The decoded JSON mapping is given by the list of its values in iteration
  order; the value is one record for the products without ensemble and a list of records for
  \<^verbatim>\<open>long_range\<close>.
\<close>

record 'v sim_result =
  times :: "int list"
  value_lists :: "'v list list"
  label :: string











section \<open>COMID lists at the public interface\<close>

text \<open>
  The public operations take the COMIDs as a list of integers or, as the conversion at their
  head shows, as a list of strings. The lists are homogeneous. \<open>comids_len\<close> is \<^verbatim>\<open>len(comids)\<close>.
\<close>

datatype comids = IntIds "int list" | StrIds "string list"

fun comids_len :: "comids \<Rightarrow> nat" where
  "comids_len (IntIds xs) = length xs"
| "comids_len (StrIds ss) = length ss"

text \<open>
  \<^verbatim>\<open>int(s)\<close> for a string: surrounding whitespace is dropped, one sign is allowed, the rest
  must be a non-empty run of decimal digits; anything else raises \<^verbatim>\<open>ValueError\<close>.
\<close>

definition is_space :: "char \<Rightarrow> bool" where
  "is_space c = (c \<in> set [CHR '' '', CHR 0x09, CHR 0x0A, CHR 0x0B, CHR 0x0C, CHR 0x0D])"

definition is_digit :: "char \<Rightarrow> bool" where
  "is_digit c = (c \<in> set ''0123456789'')"

definition strip :: "string \<Rightarrow> string" where
  "strip s = rev (dropWhile is_space (rev (dropWhile is_space s)))"

definition digits_value :: "string \<Rightarrow> nat" where
  "digits_value s = foldl (\<lambda>a c. 10 * a + (of_char c - 48)) 0 s"

definition py_int :: "string \<Rightarrow> error + int" where
  "py_int s =
     (let t = strip s;
          (sign, body) = (case t of
                            c # r \<Rightarrow> if c = CHR ''-'' then (- 1, r)
                                     else if c = CHR ''+'' then (1, r)
                                     else (1, t)
                          | [] \<Rightarrow> (1, t))
      in if body \<noteq> [] \<and> list_all is_digit body
         then Inr (sign * int (digits_value body))
         else Inl InvalidLiteral)"

text \<open>\<^verbatim>\<open>[int(comid) for comid in comids]\<close>: the first failing element raises.\<close>

fun int_each :: "string list \<Rightarrow> error + int list" where
  "int_each [] = Inr []"
| "int_each (s # ss) =
     (case py_int s of
        Inl e \<Rightarrow> Inl e
      | Inr n \<Rightarrow> (case int_each ss of Inl e \<Rightarrow> Inl e | Inr ns \<Rightarrow> Inr (n # ns)))"

text \<open>
  The head of \<^verbatim>\<open>read_q_for_comids\<close> and \<^verbatim>\<open>subset_channel_file\<close>:
  \<^verbatim>\<open>if len(comids) and type(comids[0]) is str: comids = [int(comid) for comid in comids]\<close>,
  then the conversion to an array.
\<close>

fun convert_comids :: "comids \<Rightarrow> error + int list" where
  "convert_comids (IntIds xs) = Inr xs"
| "convert_comids (StrIds []) = Inr []"
| "convert_comids (StrIds (s # ss)) = int_each (s # ss)"

section \<open>Gridded files\<close>

text \<open>
  A netCDF dataset as the code reads and writes it. Numbers of every variable are of one
  ordered numeric type \<open>'v\<close> (integers are embedded with \<open>of_int\<close>); a variable holds its
  values along its first dimension. Attribute sets are finite maps from names to values.
  The global attribute \<^verbatim>\<open>model_output_valid_time\<close> is kept apart from the other global
  attributes and is given by the UTC instant its text denotes, in seconds since the epoch
  (\<open>None\<close>: the attribute is absent). A dimension is its name with its size, \<open>None\<close> for an
  unlimited dimension. \<^verbatim>\<open>in_nc.variables\<close> and \<^verbatim>\<open>in_nc.dimensions\<close> are ordered
  dictionaries: association lists with distinct keys.
\<close>

datatype 'v attr = Text string | Numeric "'v list" | SecondsSince int

record 'v variable =
  var_datatype :: string
  var_dimensions :: "string list"
  var_attrs :: "string \<rightharpoonup> 'v attr"
  var_data :: "'v list"

record 'v dataset =
  ncattrs :: "string \<rightharpoonup> 'v attr"
  model_output_valid_time :: "int option"
  data_model :: string
  dimensions :: "(string \<times> nat option) list"
  variables :: "(string \<times> 'v variable) list"

section \<open>Reading streamflow for a set of COMIDs\<close>



section \<open>The file subset extractor\<close>



section \<open>Files on disk\<close>

text \<open>
  The file system is a map from path names to file contents. A content is a netCDF dataset,
  the gzip compression of a content, or anything else (\<open>Other\<close>, which includes the empty
  file). Only regular files are modelled, and every path can be written. \<open>isfile\<close> is
  \<^verbatim>\<open>os.path.isfile\<close>, \<open>basename\<close> is \<^verbatim>\<open>os.path.basename\<close> and \<open>path_join\<close> is
  \<^verbatim>\<open>os.path.join\<close> of two components, both for POSIX paths. \<^verbatim>\<open>Dataset(path, 'r')\<close> fails
  with \<open>IOError\<close> on a path that holds no netCDF dataset.
\<close>

datatype 'v content = NetCDF "'v dataset" | Gzip "'v content" | Other

type_synonym 'v fs = "string \<rightharpoonup> 'v content"

definition isfile :: "'v fs \<Rightarrow> string \<Rightarrow> bool" where
  "isfile fs path = (fs path \<noteq> None)"

definition basename :: "string \<Rightarrow> string" where
  "basename p = rev (takeWhile (\<lambda>c. c \<noteq> CHR ''/'') (rev p))"

definition path_join :: "string \<Rightarrow> string \<Rightarrow> string" where
  "path_join a b =
     (if b \<noteq> [] \<and> hd b = CHR ''/'' then b
      else if a = [] \<or> last a = CHR ''/'' then a @ b
      else a @ ''/'' @ b)"

definition open_dataset :: "'v fs \<Rightarrow> string \<Rightarrow> error + 'v dataset" where
  "open_dataset fs path =
     (case fs path of Some (NetCDF nc) \<Rightarrow> Inr nc | _ \<Rightarrow> Inl IOError)"

text \<open>
  \<^verbatim>\<open>with gzip.open(nc_file, 'rb') as z, open(tmpfile, 'wb') as uz: uz.write(z.read())\<close>.
  Opening a missing file for reading fails; opening the scratch file for writing creates it
  empty (the empty path cannot be opened); reading a file that is not gzip data fails, with
  the empty scratch file already on disk.
\<close>

definition gunzip :: "'v fs \<Rightarrow> string \<Rightarrow> string \<Rightarrow> 'v fs \<times> error option" where
  "gunzip fs nc_file tmpfile =
     (case fs nc_file of
        None \<Rightarrow> (fs, Some IOError)
      | Some c \<Rightarrow>
          if tmpfile = [] then (fs, Some IOError)
          else (case c of
                  Gzip z \<Rightarrow> (fs(tmpfile \<mapsto> z), None)
                | _ \<Rightarrow> (fs(tmpfile \<mapsto> Other), Some IOError)))"

text \<open>
  \<^verbatim>\<open>nc_file[-3:] == '.gz'\<close> and the scratch path
  \<^verbatim>\<open>os.path.join(tmpdir, os.path.basename(nc_file)[:-3])\<close>.
\<close>

definition is_gz :: "string \<Rightarrow> bool" where
  "is_gz nc_file = (drop (length nc_file - 3) nc_file = ''.gz'')"

definition scratch_path :: "string \<Rightarrow> string \<Rightarrow> string" where
  "scratch_path tmpdir nc_file =
     (let base = basename nc_file in path_join tmpdir (take (length base - 3) base))"

text \<open>\<^verbatim>\<open>if tmpfile and os.path.isfile(tmpfile): os.remove(tmpfile)\<close>\<close>

definition remove_tmpfile :: "string option \<Rightarrow> 'v fs \<Rightarrow> 'v fs" where
  "remove_tmpfile tmpfile fs =
     (case tmpfile of
        None \<Rightarrow> fs
      | Some tmp \<Rightarrow> if tmp \<noteq> [] \<and> isfile fs tmp then fs(tmp := None) else fs)"

section \<open>The streamflow cube builder\<close>

text \<open>
  The tuple that \<^verbatim>\<open>build_streamflow_cube\<close> returns. \<open>seconds_since_date\<close> is the Python
  variable of that name: \<open>None\<close> until the first file has been read.
\<close>

record 'v cube =
  out_q :: "'v list list"
  out_t :: "int list"
  seconds_since_date :: "int option"
  max_q :: "'v list option"

text \<open>The variables that the loop over the files updates, with the file system.\<close>

record 'v loop_state =
  st_fs :: "'v fs"
  st_tmpfile :: "string option"
  st_indices :: "nat list option"
  st_seconds_since_date :: "int option"
  st_out_q :: "'v list list"
  st_out_t :: "int list"

text \<open>
  The head of \<^verbatim>\<open>build_streamflow_cube\<close>: the identifiers to look up (\<open>None\<close>: take every
  river as stored) and the number of rivers. Without a non-empty COMID list both come from
  the first file, which is opened as it is, compressed or not.
\<close>

definition cube_comids ::
  "'v::linordered_idom fs \<Rightarrow> string list \<Rightarrow> comids option \<Rightarrow> error + ('v list option \<times> nat)" where
  "cube_comids fs nc_files comids0 =
     (case (case comids0 of None \<Rightarrow> None
                          | Some c \<Rightarrow> if comids_len c > 0 then Some c else None) of
        Some c \<Rightarrow>
          (case convert_comids c of
             Inl e \<Rightarrow> Inl e
           | Inr comids \<Rightarrow> Inr (Some (map of_int comids), length comids))
      | None \<Rightarrow>
          (case nc_files of
             [] \<Rightarrow> Inl IndexError
           | first # _ \<Rightarrow>
              (case open_dataset fs first of
                 Inl e \<Rightarrow> Inl e
               | Inr nc \<Rightarrow>
                  (case map_of (variables nc) ''streamflow'' of
                     None \<Rightarrow> Inl (KeyError ''streamflow'')
                   | Some q \<Rightarrow>
                       Inr (map_option var_data (map_of (variables nc) ''station_id''),
                            length (var_data q))))))"

text \<open>
  \<^verbatim>\<open>out_q[i] = row\<close> for a row of \<^verbatim>\<open>out_q\<close> of length \<open>num_rivers\<close>: numpy broadcasts a
  right-hand side of length one and rejects any other length that differs.
\<close>

definition assign_row :: "nat \<Rightarrow> 'v list \<Rightarrow> error + 'v list" where
  "assign_row num_rivers q =
     (if length q = num_rivers then Inr q
      else if length q = 1 then Inr (replicate num_rivers (hd q))
      else Inl ShapeMismatch)"

text \<open>The index into one file: the check for \<^verbatim>\<open>station_id\<close> and the resolver.\<close>

definition build_index ::
  "'v::linorder list \<Rightarrow> string \<Rightarrow> 'v dataset \<Rightarrow> error + nat list" where
  "build_index comids nc_file nc =
     (case map_of (variables nc) ''station_id'' of
        None \<Rightarrow> Inl (NoStationId nc_file)
      | Some id_var \<Rightarrow> get_comid_indices comids (var_data id_var))"

text \<open>
  The streamflow read from one open file: the values for \<^verbatim>\<open>out_q[i]\<close> and the new value of
  \<^verbatim>\<open>indices\<close>.
\<close>

definition read_streamflow ::
  "'v::linorder list option \<Rightarrow> bool \<Rightarrow> nat list option \<Rightarrow> string \<Rightarrow> 'v dataset \<Rightarrow>
   error + ('v list \<times> nat list option)" where
  "read_streamflow comids consistent_comid_order indices nc_file nc =
     (case comids of
        None \<Rightarrow>
          (case map_of (variables nc) ''streamflow'' of
             None \<Rightarrow> Inl (KeyError ''streamflow'')
           | Some q \<Rightarrow> Inr (var_data q, indices))
      | Some ids \<Rightarrow>
          (case (case indices of
                   None \<Rightarrow> build_index ids nc_file nc
                 | Some idx \<Rightarrow> if \<not> consistent_comid_order then build_index ids nc_file nc
                              else Inr idx) of
             Inl e \<Rightarrow> Inl e
           | Inr idx \<Rightarrow>
              (case map_of (variables nc) ''streamflow'' of
                 None \<Rightarrow> Inl (KeyError ''streamflow'')
               | Some q \<Rightarrow>
                  (case take_idx (var_data q) idx of
                     Inl e \<Rightarrow> Inl e
                   | Inr selected \<Rightarrow> Inr (selected, Some idx)))))"

text \<open>
  One pass of the loop over \<^verbatim>\<open>nc_files\<close>. The result is the state after the pass and the
  exception that ended it, if any; after an exception only the file system of the state
  matters. The scratch file is removed by the last statement of the pass, which an exception
  skips.
\<close>

definition process_file ::
  "string \<Rightarrow> 'v::linorder list option \<Rightarrow> bool \<Rightarrow> nat \<Rightarrow> 'v loop_state \<Rightarrow> string \<Rightarrow>
   'v loop_state \<times> error option" where
  "process_file tmpdir comids consistent_comid_order num_rivers st nc_file0 =
     (let (st1, nc_file, unzip_error) =
            (if is_gz nc_file0 then
               (let tmpfile = scratch_path tmpdir nc_file0;
                    (fs', err) = gunzip (st_fs st) nc_file0 tmpfile
                in (st\<lparr>st_fs := fs', st_tmpfile := Some tmpfile\<rparr>, tmpfile, err))
             else (st, nc_file0, None))
      in case unzip_error of
           Some e \<Rightarrow> (st1, Some e)
         | None \<Rightarrow>
        (case open_dataset (st_fs st1) nc_file of
           Inl e \<Rightarrow> (st1, Some e)
         | Inr nc \<Rightarrow>
        (case model_output_valid_time nc of
           None \<Rightarrow> (st1, Some AttributeError)
         | Some date \<Rightarrow>
        (let since = (case st_seconds_since_date st1 of None \<Rightarrow> date | Some d \<Rightarrow> d)
         in case read_streamflow comids consistent_comid_order (st_indices st1) nc_file nc of
              Inl e \<Rightarrow> (st1, Some e)
            | Inr (q, indices') \<Rightarrow>
           (case assign_row num_rivers q of
              Inl e \<Rightarrow> (st1, Some e)
            | Inr row \<Rightarrow>
                (st1\<lparr>st_fs := remove_tmpfile (st_tmpfile st1) (st_fs st1),
                     st_indices := indices',
                     st_seconds_since_date := Some since,
                     st_out_q := st_out_q st1 @ [row],
                     st_out_t := st_out_t st1 @ [date - since]\<rparr>, None))))))"

fun process_files ::
  "string \<Rightarrow> 'v::linorder list option \<Rightarrow> bool \<Rightarrow> nat \<Rightarrow> 'v loop_state \<Rightarrow> string list \<Rightarrow>
   'v loop_state \<times> error option" where
  "process_files tmpdir comids consistent_comid_order num_rivers st [] = (st, None)"
| "process_files tmpdir comids consistent_comid_order num_rivers st (nc_file # rest) =
     (case process_file tmpdir comids consistent_comid_order num_rivers st nc_file of
        (st', Some e) \<Rightarrow> (st', Some e)
      | (st', None) \<Rightarrow>
          process_files tmpdir comids consistent_comid_order num_rivers st' rest)"

text \<open>
  \<^verbatim>\<open>np.amax(out_q, axis=0)\<close>: the maximum of every column. The array has a row for every
  file, so at least one.
\<close>

definition amax_axis0 :: "nat \<Rightarrow> 'v::linorder list list \<Rightarrow> 'v list" where
  "amax_axis0 num_rivers rows =
     (case rows of
        [] \<Rightarrow> []
      | row # rest \<Rightarrow> map (\<lambda>j. fold (\<lambda>r m. max m (r ! j)) rest (row ! j)) [0..<num_rivers])"

text \<open>
  \<^verbatim>\<open>build_streamflow_cube\<close>, with the directory of \<^verbatim>\<open>tempfile.gettempdir()\<close> as a parameter.
  The result is the file system the call leaves behind, with the exception raised or the
  value returned (\<open>None\<close> for an empty file list).
\<close>

definition build_streamflow_cube ::
  "string \<Rightarrow> 'v::linordered_idom fs \<Rightarrow> string list \<Rightarrow> comids option \<Rightarrow> bool \<Rightarrow> bool \<Rightarrow>
   'v fs \<times> (error + 'v cube option)" where
  "build_streamflow_cube tmpdir fs nc_files comids0 consistent_comid_order compute_max =
     (if nc_files = [] then (fs, Inr None)
      else case cube_comids fs nc_files comids0 of
        Inl e \<Rightarrow> (fs, Inl e)
      | Inr (comids, num_rivers) \<Rightarrow>
         (case process_files tmpdir comids consistent_comid_order num_rivers
                 \<lparr>st_fs = fs, st_tmpfile = None, st_indices = None,
                  st_seconds_since_date = None, st_out_q = [], st_out_t = []\<rparr> nc_files of
            (st, Some e) \<Rightarrow> (st_fs st, Inl e)
          | (st, None) \<Rightarrow>
              (st_fs st,
               Inr (Some \<lparr>out_q = st_out_q st,
                          out_t = st_out_t st,
                          seconds_since_date = st_seconds_since_date st,
                          max_q = (if compute_max
                                   then Some (amax_axis0 num_rivers (st_out_q st))
                                   else None)\<rparr>))))"

section \<open>The cube-to-file combiner\<close>

text \<open>
  The values that \<^verbatim>\<open>comid_var[:] = comids\<close> stores: the COMIDs as the caller gave them (a
  list of strings is cast to the integer type of the variable element by element, as by
  \<^verbatim>\<open>int\<close>), or the identifiers read from the first file.
\<close>

definition combine_comids ::
  "'v::linordered_idom fs \<Rightarrow> string list \<Rightarrow> comids option \<Rightarrow> error + 'v list option" where
  "combine_comids fs nc_files comids =
     (case comids of
        Some c \<Rightarrow>
          (case convert_comids c of
             Inl e \<Rightarrow> Inl e
           | Inr ids \<Rightarrow> Inr (Some (map of_int ids)))
      | None \<Rightarrow>
          (case nc_files of
             [] \<Rightarrow> Inl IndexError
           | first # _ \<Rightarrow>
              (case open_dataset fs first of
                 Inl e \<Rightarrow> Inl e
               | Inr nc \<Rightarrow> Inr (map_option var_data (map_of (variables nc) ''station_id'')))))"

text \<open>
  The dataset that \<^verbatim>\<open>combine_files\<close> writes. The text of the \<^verbatim>\<open>units\<close> attribute of the
  time variable, \<^verbatim>\<open>'seconds since '\<close> followed by the formatted reference time, is given by
  \<open>SecondsSince\<close> of the instant. The two-dimensional streamflow variable holds its rows one
  after the other.
\<close>

definition combined_dataset ::
  "nat \<Rightarrow> nat \<Rightarrow> int \<Rightarrow> int list \<Rightarrow> 'v::linordered_idom list option \<Rightarrow> 'v list list \<Rightarrow>
   'v list option \<Rightarrow> 'v dataset" where
  "combined_dataset num_files num_rivers since t comids q max_values =
     \<lparr>ncattrs = Map.empty,
      model_output_valid_time = None,
      data_model = ''NETCDF4'',
      dimensions = [(''time'', Some num_files), (''station'', Some num_rivers)],
      variables =
        [(''time'', \<lparr>var_datatype = ''i'', var_dimensions = [''time''],
                     var_attrs = [''long_name'' \<mapsto> Text ''time'',
                                  ''standard_name'' \<mapsto> Text ''time'',
                                  ''units'' \<mapsto> SecondsSince since],
                     var_data = map of_int t\<rparr>)] @
        (case comids of
           None \<Rightarrow> []
         | Some ids \<Rightarrow>
             [(''station_id'', \<lparr>var_datatype = ''i'', var_dimensions = [''station''],
                               var_attrs = [''long_name'' \<mapsto> Text ''Station id''],
                               var_data = ids\<rparr>)]) @
        [(''streamflow'', \<lparr>var_datatype = ''f4'', var_dimensions = [''time'', ''station''],
                          var_attrs = [''long_name'' \<mapsto> Text ''River Flow'',
                                       ''units'' \<mapsto> Text ''meter^3 / sec''],
                          var_data = concat q\<rparr>)] @
        (case max_values of
           None \<Rightarrow> []
         | Some m \<Rightarrow>
             [(''max_streamflow'', \<lparr>var_datatype = ''f4'', var_dimensions = [''station''],
                                   var_attrs = [''long_name'' \<mapsto> Text ''Maximum River Flow'',
                                                ''units'' \<mapsto> Text ''meter^3 / sec''],
                                   var_data = m\<rparr>)])\<rparr>"

text \<open>
  \<^verbatim>\<open>combine_files\<close>: the file system the call leaves behind and the exception raised, if
  any. The cube is built with the default \<^verbatim>\<open>compute_max=True\<close>, since the argument is not
  passed on. Everything that can fail comes before the output file is opened, except the
  cast of a list of strings, which the cube builder has then already done with success.
\<close>

definition combine_files ::
  "string \<Rightarrow> 'v::linordered_idom fs \<Rightarrow> string list \<Rightarrow> string \<Rightarrow> comids option \<Rightarrow> bool \<Rightarrow> bool \<Rightarrow>
   'v fs \<times> error option" where
  "combine_files tmpdir fs nc_files0 output_file comids consistent_comid_order compute_max =
     (let nc_files = filter (isfile fs) nc_files0
      in if nc_files = [] then (fs, Some NoFilesToCombine)
         else case build_streamflow_cube tmpdir fs nc_files comids consistent_comid_order True of
           (fs1, Inl e) \<Rightarrow> (fs1, Some e)
         | (fs1, Inr None) \<Rightarrow> (fs1, Some TypeError)
         | (fs1, Inr (Some cube)) \<Rightarrow>
            (case seconds_since_date cube of
               None \<Rightarrow> (fs1, Some AttributeError)
             | Some since \<Rightarrow>
            (case out_q cube of
               [] \<Rightarrow> (fs1, Some IndexError)
             | row # _ \<Rightarrow>
            (case combine_comids fs1 nc_files comids of
               Inl e \<Rightarrow> (fs1, Some e)
             | Inr ids \<Rightarrow>
                (fs1(output_file \<mapsto>
                   NetCDF (combined_dataset (length nc_files) (length row) since
                             (out_t cube) ids (out_q cube)
                             (if compute_max then max_q cube else None))),
                 None)))))"

section \<open>Properties of the resolver\<close>

lemma set_argsort: "set (argsort xs) = {0..<length xs}"
  by (simp add: argsort_def)

lemma sorted_argsort: "sorted (map (\<lambda>i. xs ! i) (argsort xs))"
  unfolding argsort_def by (rule sorted_sort_key)

lemma take_idx_argsort:
  "take_idx xs (argsort xs) = Inr (map (\<lambda>i. xs ! i) (argsort xs))"
  by (simp add: take_idx_def set_argsort)

lemma set_map_argsort: "set (map (\<lambda>i. xs ! i) (argsort xs)) = set xs"
proof -
  have "set (map (\<lambda>i. xs ! i) (argsort xs)) = (\<lambda>i. xs ! i) ` {0..<length xs}"
    by (simp add: set_argsort)
  also have "\<dots> = set xs"
    by (metis map_nth set_map set_upt)
  finally show ?thesis .
qed

lemma bisect_left_bounds:
  "lo \<le> hi \<Longrightarrow> lo \<le> bisect_left a v lo hi \<and> bisect_left a v lo hi \<le> hi"
proof (induction a v lo hi rule: bisect_left.induct)
  case (1 a v lo hi)
  show ?case
  proof (cases "lo < hi")
    case False
    with "1.prems" show ?thesis by (simp add: bisect_left.simps)
  next
    case True
    define mid where "mid = lo + (hi - lo) div 2"
    have m: "lo \<le> mid" "mid < hi" using True by (auto simp: mid_def)
    show ?thesis
    proof (cases "a ! mid < v")
      case True
      have "mid + 1 \<le> bisect_left a v (mid + 1) hi \<and> bisect_left a v (mid + 1) hi \<le> hi"
        using "1.IH"(1)[OF \<open>lo < hi\<close> mid_def True] m by simp
      moreover have "bisect_left a v lo hi = bisect_left a v (mid + 1) hi"
        using \<open>lo < hi\<close> True by (subst bisect_left.simps) (simp add: mid_def Let_def)
      ultimately show ?thesis using m by simp
    next
      case False
      have "lo \<le> bisect_left a v lo mid \<and> bisect_left a v lo mid \<le> mid"
        using "1.IH"(2)[OF \<open>lo < hi\<close> mid_def False] m by simp
      moreover have "bisect_left a v lo hi = bisect_left a v lo mid"
        using \<open>lo < hi\<close> False by (subst bisect_left.simps) (simp add: mid_def Let_def)
      ultimately show ?thesis using m by simp
    qed
  qed
qed

text \<open>
  The loop invariant of the binary search on a sorted array: everything left of \<open>lo\<close> is
  below \<open>v\<close>, everything from \<open>hi\<close> on is at least \<open>v\<close>.
\<close>

lemma bisect_left_partition:
  "sorted a \<Longrightarrow> lo \<le> hi \<Longrightarrow> hi \<le> length a \<Longrightarrow>
   (\<forall>i < lo. a ! i < v) \<Longrightarrow> (\<forall>i. hi \<le> i \<and> i < length a \<longrightarrow> v \<le> a ! i) \<Longrightarrow>
   (\<forall>i < bisect_left a v lo hi. a ! i < v) \<and>
   (\<forall>i. bisect_left a v lo hi \<le> i \<and> i < length a \<longrightarrow> v \<le> a ! i)"
proof (induction a v lo hi rule: bisect_left.induct)
  case (1 a v lo hi)
  show ?case
  proof (cases "lo < hi")
    case False
    with "1.prems" have "hi = lo" by simp
    with False "1.prems" show ?thesis by (simp add: bisect_left.simps)
  next
    case True
    define mid where "mid = lo + (hi - lo) div 2"
    have m: "lo \<le> mid" "mid < hi" using True by (auto simp: mid_def)
    show ?thesis
    proof (cases "a ! mid < v")
      case lt: True
      have below: "\<forall>i < mid + 1. a ! i < v"
      proof (intro allI impI)
        fix i assume "i < mid + 1"
        then have "i \<le> mid" by simp
        then have "a ! i \<le> a ! mid"
          using \<open>sorted a\<close> m "1.prems"(3) by (auto simp: sorted_iff_nth_mono)
        with lt show "a ! i < v" by simp
      qed
      have eq: "bisect_left a v lo hi = bisect_left a v (mid + 1) hi"
        using True lt by (subst bisect_left.simps) (simp add: mid_def Let_def)
      show ?thesis unfolding eq
        using "1.IH"(1)[OF True mid_def lt \<open>sorted a\<close> _ "1.prems"(3) below "1.prems"(5)] m
        by simp
    next
      case ge: False
      have above: "\<forall>i. mid \<le> i \<and> i < length a \<longrightarrow> v \<le> a ! i"
      proof (intro allI impI)
        fix i assume "mid \<le> i \<and> i < length a"
        then have "a ! mid \<le> a ! i"
          using \<open>sorted a\<close> by (auto simp: sorted_iff_nth_mono)
        with ge show "v \<le> a ! i" by simp
      qed
      have eq: "bisect_left a v lo hi = bisect_left a v lo mid"
        using True ge by (subst bisect_left.simps) (simp add: mid_def Let_def)
      show ?thesis unfolding eq
        using "1.IH"(2)[OF True mid_def ge \<open>sorted a\<close> m(1) _ "1.prems"(4) above] m "1.prems"(3)
        by simp
    qed
  qed
qed

lemma bisect_left_spec:
  assumes "sorted a"
  shows "bisect_left a v 0 (length a) \<le> length a"
    and "\<forall>i < bisect_left a v 0 (length a). a ! i < v"
    and "\<forall>i. bisect_left a v 0 (length a) \<le> i \<and> i < length a \<longrightarrow> v \<le> a ! i"
proof -
  show "bisect_left a v 0 (length a) \<le> length a"
    using bisect_left_bounds[of 0 "length a" a v] by simp
  have "(\<forall>i < bisect_left a v 0 (length a). a ! i < v) \<and>
        (\<forall>i. bisect_left a v 0 (length a) \<le> i \<and> i < length a \<longrightarrow> v \<le> a ! i)"
    by (rule bisect_left_partition[OF assms(1)]) auto
  then show "\<forall>i < bisect_left a v 0 (length a). a ! i < v"
    and "\<forall>i. bisect_left a v 0 (length a) \<le> i \<and> i < length a \<longrightarrow> v \<le> a ! i"
    by blast+
qed

text \<open>A value with some element of the sorted array at or above it is placed in range,
  at the least such element.\<close>

lemma bisect_left_bounded:
  assumes "sorted a" "s \<in> set a" "v \<le> s"
  shows "bisect_left a v 0 (length a) < length a"
    and "v \<le> a ! bisect_left a v 0 (length a)"
    and "a ! bisect_left a v 0 (length a) \<le> s"
proof -
  let ?r = "bisect_left a v 0 (length a)"
  from assms(2) obtain j where j: "j < length a" "a ! j = s"
    by (auto simp: in_set_conv_nth)
  have "\<not> j < ?r" using bisect_left_spec(2)[OF assms(1), of v] j assms(3) by auto
  then have rj: "?r \<le> j" by simp
  then show lt: "?r < length a" using j by simp
  show "v \<le> a ! ?r" using bisect_left_spec(3)[OF assms(1), of v] lt by simp
  show "a ! ?r \<le> s"
    using assms(1) rj j by (auto simp: sorted_iff_nth_mono)
qed

lemma bisect_left_member:
  assumes "sorted a" "v \<in> set a"
  shows "bisect_left a v 0 (length a) < length a \<and> a ! bisect_left a v 0 (length a) = v"
  using bisect_left_bounded[OF assms, of v] by simp

text \<open>A value above every element of the sorted array is placed at its end.\<close>

lemma bisect_left_beyond:
  assumes "sorted a" "\<forall>s \<in> set a. s < v"
  shows "bisect_left a v 0 (length a) = length a"
proof (rule ccontr)
  let ?r = "bisect_left a v 0 (length a)"
  assume "?r \<noteq> length a"
  with bisect_left_spec(1)[OF assms(1), of v] have lt: "?r < length a" by simp
  then have "v \<le> a ! ?r" using bisect_left_spec(3)[OF assms(1), of v] by simp
  moreover have "a ! ?r < v" using assms(2) lt by simp
  ultimately show False by simp
qed

lemma get_comid_indices_unfold:
  "get_comid_indices find_comids nc_comids =
     take_idx (argsort nc_comids)
       (searchsorted (map (\<lambda>i. nc_comids ! i) (argsort nc_comids)) find_comids)"
  by (simp add: get_comid_indices_def take_idx_argsort Let_def)

text \<open>
  C1. When the stored identifier array has no duplicates and contains every queried
  identifier, \<open>get_comid_indices\<close> returns one position per query identifier, each inside the
  stored array, and the stored identifier at position \<open>idx ! k\<close> is the \<open>k\<close>-th query
  identifier. The query may list any identifiers of the stored array in any order.
\<close>

theorem get_comid_indices_correct:
  assumes "distinct nc_comids" and "set find_comids \<subseteq> set nc_comids"
  shows "\<exists>idx. get_comid_indices find_comids nc_comids = Inr idx \<and>
           length idx = length find_comids \<and>
           (\<forall>k < length find_comids.
              idx ! k < length nc_comids \<and> nc_comids ! (idx ! k) = find_comids ! k)"
proof -
  let ?si = "argsort nc_comids"
  let ?sn = "map (\<lambda>i. nc_comids ! i) ?si"
  let ?found = "searchsorted ?sn find_comids"
  have srt: "sorted ?sn" by (rule sorted_argsort)
  have pos: "bisect_left ?sn v 0 (length ?sn) < length ?sn \<and>
             ?sn ! bisect_left ?sn v 0 (length ?sn) = v" if "v \<in> set find_comids" for v
  proof -
    from that assms(2) have "v \<in> set nc_comids" by blast
    then have "v \<in> set ?sn" by (simp only: set_map_argsort)
    from bisect_left_member[OF srt this] show ?thesis .
  qed
  have inrange: "\<forall>i \<in> set ?found. i < length ?si"
    using pos by (auto simp: searchsorted_def)
  then have res: "get_comid_indices find_comids nc_comids = Inr (map (\<lambda>i. ?si ! i) ?found)"
    by (simp add: get_comid_indices_unfold take_idx_def)
  have "?si ! (?found ! k) < length nc_comids \<and>
        nc_comids ! (?si ! (?found ! k)) = find_comids ! k" if k: "k < length find_comids" for k
  proof -
    let ?v = "find_comids ! k"
    let ?r = "bisect_left ?sn ?v 0 (length ?sn)"
    have fk: "?found ! k = ?r" using k by (simp add: searchsorted_def)
    have r: "?r < length ?si" "?sn ! ?r = ?v" using pos[of ?v] k by auto
    have "?si ! ?r \<in> set ?si" using r(1) by simp
    then have "?si ! ?r < length nc_comids" by (simp add: set_argsort)
    moreover have "nc_comids ! (?si ! ?r) = ?v" using r by simp
    ultimately show ?thesis by (simp add: fk)
  qed
  with res show ?thesis by (simp add: searchsorted_def)
qed

theorem get_comid_indices_correct_witness:
  "distinct [20, 30, 10 :: int] \<and> set [30, 10 :: int] \<subseteq> set [20, 30, 10] \<and>
   (\<exists>idx. get_comid_indices [30, 10 :: int] [20, 30, 10] = Inr idx \<and>
      length idx = length [30, 10 :: int] \<and>
      (\<forall>k < length [30, 10 :: int].
         idx ! k < length [20, 30, 10 :: int] \<and> [20, 30, 10] ! (idx ! k) = [30, 10 :: int] ! k))"
  using get_comid_indices_correct [of "[20, 30, 10 :: int]" "[30, 10]"] by simp

text \<open>
  C2 as stated fails: a query identifier above every stored identifier is searched to the
  position one past the end of the sorted array, and indexing the sort permutation there
  raises \<^verbatim>\<open>IndexError\<close>.
\<close>

theorem get_comid_indices_absent_counterexample:
  "get_comid_indices [35 :: int] [20, 30, 10] = Inl IndexError"
  by code_simp

text \<open>
  C2, amended. Let \<open>q\<close> be a query identifier that the stored array does not contain. The
  resolver makes no membership check. When every query identifier has a stored identifier at
  or above it, the call returns positions without any signal, and the position given for
  \<open>q\<close> is in range and holds the least stored identifier greater than \<open>q\<close>, so not \<open>q\<close>.
  When some query identifier is above every stored identifier (so also when the stored array
  is empty), the call raises \<^verbatim>\<open>IndexError\<close>.
\<close>

theorem get_comid_indices_absent:
  assumes "q \<in> set find_comids" and "q \<notin> set nc_comids"
  shows "((\<forall>v \<in> set find_comids. \<exists>s \<in> set nc_comids. v \<le> s) \<longrightarrow>
            (\<exists>idx. get_comid_indices find_comids nc_comids = Inr idx \<and>
               length idx = length find_comids \<and>
               (\<forall>k < length find_comids. find_comids ! k = q \<longrightarrow>
                  idx ! k < length nc_comids \<and> q < nc_comids ! (idx ! k) \<and>
                  (\<forall>s \<in> set nc_comids. q < s \<longrightarrow> nc_comids ! (idx ! k) \<le> s)))) \<and>
         ((\<exists>v \<in> set find_comids. \<forall>s \<in> set nc_comids. s < v) \<longrightarrow>
            get_comid_indices find_comids nc_comids = Inl IndexError)"
proof (intro conjI impI)
  let ?si = "argsort nc_comids"
  let ?sn = "map (\<lambda>i. nc_comids ! i) ?si"
  let ?found = "searchsorted ?sn find_comids"
  have srt: "sorted ?sn" by (rule sorted_argsort)
  have setsn: "set ?sn = set nc_comids" by (rule set_map_argsort)
  {
    assume bounded: "\<forall>v \<in> set find_comids. \<exists>s \<in> set nc_comids. v \<le> s"
    have pos: "bisect_left ?sn v 0 (length ?sn) < length ?sn" if "v \<in> set find_comids" for v
    proof -
      from that bounded obtain s where "s \<in> set nc_comids" "v \<le> s" by blast
      then have "s \<in> set ?sn" by (simp only: setsn)
      from bisect_left_bounded(1)[OF srt this \<open>v \<le> s\<close>] show ?thesis .
    qed
    then have "\<forall>i \<in> set ?found. i < length ?si"
      by (auto simp: searchsorted_def)
    then have res: "get_comid_indices find_comids nc_comids = Inr (map (\<lambda>i. ?si ! i) ?found)"
      by (simp add: get_comid_indices_unfold take_idx_def)
    have "?si ! (?found ! k) < length nc_comids \<and> q < nc_comids ! (?si ! (?found ! k)) \<and>
          (\<forall>s \<in> set nc_comids. q < s \<longrightarrow> nc_comids ! (?si ! (?found ! k)) \<le> s)"
      if k: "k < length find_comids" and fq: "find_comids ! k = q" for k
    proof -
      let ?r = "bisect_left ?sn q 0 (length ?sn)"
      have fk: "?found ! k = ?r" using k fq by (simp add: searchsorted_def)
      have r: "?r < length ?si" using pos[of q] assms(1) by simp
      have "?si ! ?r \<in> set ?si" using r by simp
      then have in_range: "?si ! ?r < length nc_comids" by (simp add: set_argsort)
      have val: "nc_comids ! (?si ! ?r) = ?sn ! ?r" using r by simp
      from bounded assms(1) obtain s0 where s0: "s0 \<in> set nc_comids" "q \<le> s0" by blast
      then have "s0 \<in> set ?sn" by (simp only: setsn)
      from bisect_left_bounded(2)[OF srt this s0(2)] have "q \<le> ?sn ! ?r" .
      moreover have "?sn ! ?r \<in> set nc_comids" using in_range val by (metis nth_mem)
      ultimately have gt: "q < ?sn ! ?r" using assms(2) by (metis order_le_less)
      have least: "?sn ! ?r \<le> s" if "s \<in> set nc_comids" "q < s" for s
      proof -
        from that have "s \<in> set ?sn" "q \<le> s" by (simp_all only: setsn order_less_imp_le)
        from bisect_left_bounded(3)[OF srt this] show ?thesis .
      qed
      show ?thesis using in_range gt least by (simp only: fk val) blast
    qed
    with res show "\<exists>idx. get_comid_indices find_comids nc_comids = Inr idx \<and>
               length idx = length find_comids \<and>
               (\<forall>k < length find_comids. find_comids ! k = q \<longrightarrow>
                  idx ! k < length nc_comids \<and> q < nc_comids ! (idx ! k) \<and>
                  (\<forall>s \<in> set nc_comids. q < s \<longrightarrow> nc_comids ! (idx ! k) \<le> s))"
      by (simp add: searchsorted_def)
  }
  {
    assume "\<exists>v \<in> set find_comids. \<forall>s \<in> set nc_comids. s < v"
    then obtain v where v: "v \<in> set find_comids" "\<forall>s \<in> set nc_comids. s < v" by blast
    then have "\<forall>s \<in> set ?sn. s < v" by (simp only: setsn)
    from bisect_left_beyond[OF srt this]
    have "bisect_left ?sn v 0 (length ?sn) = length ?si" by simp
    then have "length ?si \<in> set ?found" using v(1) by (force simp: searchsorted_def)
    then have "\<not> (\<forall>i \<in> set ?found. i < length ?si)" by blast
    then show "get_comid_indices find_comids nc_comids = Inl IndexError"
      by (simp only: get_comid_indices_unfold take_idx_def if_False)
  }
qed

theorem get_comid_indices_absent_witness:
  "((15 :: int) \<in> set [30, 15] \<and> 15 \<notin> set [20, 30, 10 :: int] \<and>
    (\<exists>s \<in> set [20, 30, 10 :: int]. 30 \<le> s) \<and> (\<exists>s \<in> set [20, 30, 10 :: int]. 15 \<le> s) \<and>
    (\<exists>idx. get_comid_indices [30, 15 :: int] [20, 30, 10] = Inr idx \<and>
       length idx = length [30, 15 :: int] \<and>
       (\<forall>k < length [30, 15 :: int]. [30, 15 :: int] ! k = 15 \<longrightarrow>
          idx ! k < length [20, 30, 10 :: int] \<and> 15 < [20, 30, 10 :: int] ! (idx ! k) \<and>
          (\<forall>s \<in> set [20, 30, 10 :: int]. 15 < s \<longrightarrow> [20, 30, 10] ! (idx ! k) \<le> s)))) \<and>
   ((35 :: int) \<in> set [35] \<and> 35 \<notin> set [20, 30, 10 :: int] \<and>
    (\<exists>v \<in> set [35 :: int]. \<forall>s \<in> set [20, 30, 10]. s < v) \<and>
    get_comid_indices [35 :: int] [20, 30, 10] = Inl IndexError)"
proof -
  have a1: "(15 :: int) \<in> set [30, 15]" and a2: "15 \<notin> set [20, 30, 10 :: int]"
    and a3: "\<forall>v \<in> set [30, 15 :: int]. \<exists>s \<in> set [20, 30, 10]. v \<le> s"
    and a4: "\<exists>s \<in> set [20, 30, 10 :: int]. 30 \<le> s"
    and a5: "\<exists>s \<in> set [20, 30, 10 :: int]. 15 \<le> s"
    by simp_all
  have b1: "(35 :: int) \<in> set [35]" and b2: "35 \<notin> set [20, 30, 10 :: int]"
    and b3: "\<exists>v \<in> set [35 :: int]. \<forall>s \<in> set [20, 30, 10]. s < v"
    by simp_all
  have first: "\<exists>idx. get_comid_indices [30, 15 :: int] [20, 30, 10] = Inr idx \<and>
       length idx = length [30, 15 :: int] \<and>
       (\<forall>k < length [30, 15 :: int]. [30, 15 :: int] ! k = 15 \<longrightarrow>
          idx ! k < length [20, 30, 10 :: int] \<and> 15 < [20, 30, 10 :: int] ! (idx ! k) \<and>
          (\<forall>s \<in> set [20, 30, 10 :: int]. 15 < s \<longrightarrow> [20, 30, 10] ! (idx ! k) \<le> s))"
    using get_comid_indices_absent [OF a1 a2] a3 by (rule conjunct1 [THEN mp])
  have second: "get_comid_indices [35 :: int] [20, 30, 10] = Inl IndexError"
    using get_comid_indices_absent [OF b1 b2] b3 by (rule conjunct2 [THEN mp])
  show ?thesis
    by (intro conjI a1 a2 a4 a5 first b1 b2 b3 second)
qed

section \<open>Properties of the unpacker\<close>


















section \<open>Properties of the subset extractor\<close>











section \<open>Properties of the cube builder\<close>

















section \<open>Properties of the combiner\<close>

text \<open>
  C9. \<open>combine_files\<close> works on the files of the list that exist on disk: the call with the
  whole list is the call with the filtered list. When none of the listed files exists, the
  call raises the missing-files exception and leaves the file system exactly as it was, so
  no output file has been created or written.
\<close>

theorem combine_files_missing:
  "combine_files tmpdir fs nc_files output_file comids consistent compute_max =
     combine_files tmpdir fs (filter (isfile fs) nc_files) output_file comids consistent
       compute_max \<and>
   (filter (isfile fs) nc_files = [] \<longrightarrow>
      combine_files tmpdir fs nc_files output_file comids consistent compute_max =
        (fs, Some NoFilesToCombine))"
  by (simp add: combine_files_def Let_def)

theorem combine_files_missing_witness:
  "filter (isfile [''a.nc'' \<mapsto> (Other :: int content)]) [''x.nc'', ''y.nc.gz''] = [] \<and>
   combine_files ''/tmp'' [''a.nc'' \<mapsto> (Other :: int content)] [''x.nc'', ''y.nc.gz'']
       ''out.nc'' None True True =
     ([''a.nc'' \<mapsto> Other], Some NoFilesToCombine)"
proof -
  have none: "filter (isfile [''a.nc'' \<mapsto> (Other :: int content)]) [''x.nc'', ''y.nc.gz''] = []"
    by (simp add: isfile_def)
  from combine_files_missing [THEN conjunct2, THEN mp, OF none] none
  show ?thesis by (rule conjI[rotated])
qed

section \<open>String COMIDs\<close>










end
